theory Spec2Isabelle
  imports Main
begin

section \<open>Data model of the double-buffered player (src/App.tsx)\<close>

text \<open>
  A playlist entry (\<open>interface VideoStep\<close>, lines 26-31). The source field \<open>id\<close> is
  called \<open>step_id\<close> here.
\<close>

record VideoStep =
  step_id :: string
  stepNumber :: nat
  uri :: string
  filename :: string

text \<open>
  One \<open>Video\<close> component of the host media library, as far as the player can tell:
  the locator it holds, if any, and whether it is rendering it.
\<close>

record video =
  source :: "string option"
  playing :: bool

datatype phase = Empty | Loading | Ready | Playing | Stopping

definition phase_of :: "video \<Rightarrow> phase" where
  "phase_of v = (case source v of None \<Rightarrow> Empty
                 | Some u \<Rightarrow> if playing v then Playing else Ready)"

text \<open>Rejections of the four asynchronous media calls.\<close>

datatype error = LoadError | PlayError | StopError | UnloadError

text \<open>
  What the component does that can be seen from outside, in the order it does it: the
  calls on the two players (the number is the player, 0 for A and 1 for B), the state
  setters, and the \<open>onExit\<close> callback of the host.
\<close>

datatype event =
    LoadAsync nat string
  | PlayAsync nat
  | StopAsync nat
  | UnloadAsync nat
  | SetActivePlayerId nat
  | SetCurrentIndex nat
  | SetLoadingProgress nat
  | SetIsReady bool
  | OnExit

text \<open>
  The state of one \<open>SeamlessPlayer\<close> (lines 52-61) together with what surrounds it:
  \<^item> \<open>currentIndex\<close>, \<open>isReady\<close>, \<open>loadingProgress\<close>, \<open>activePlayerId\<close>: the four
    \<open>useState\<close> cells;
  \<^item> \<open>playerARef\<close>, \<open>playerBRef\<close>: \<open>ref.current\<close> of the two refs, \<open>None\<close> for \<open>null\<close>,
    which is what they hold until the \<open>Video\<close> elements are rendered;
  \<^item> \<open>progress\<close>, \<open>interval\<close>: the local counter of \<open>loadInitialVideos\<close> that its
    timer callback captures, and whether that timer is still armed;
  \<^item> \<open>readyTimeout\<close>: whether the \<open>setTimeout\<close> of line 89 is pending;
  \<^item> \<open>isPlaying\<close>: the cell of \<open>App\<close> (line 177) that keeps the player mounted;
  \<^item> \<open>host\<close>: the outcomes the media library will give to the coming calls, in order
    (\<open>True\<close> resolves, \<open>False\<close> rejects; once the list is used up every call resolves);
  \<^item> \<open>trace\<close>: the events so far.
\<close>

record player =
  currentIndex :: nat
  isReady :: bool
  loadingProgress :: nat
  activePlayerId :: nat
  playerARef :: "video option"
  playerBRef :: "video option"
  progress :: nat
  interval :: bool
  readyTimeout :: bool
  isPlaying :: bool
  host :: "bool list"
  trace :: "event list"

text \<open>The locals of one run of \<open>handleTap\<close> that live across its awaits (lines 93, 102).\<close>

record frame =
  nextIndex :: nat
  nextActiveId :: nat

section \<open>The media calls\<close>

text \<open>
  Modelled from the spec: the effect of \<open>loadAsync\<close>, \<open>playAsync\<close>, \<open>stopAsync\<close> and
  \<open>unloadAsync\<close> on a \<open>Video\<close>. The component comes from the host media library, whose
  code is not in the repository; the four functions follow the contract of section 4.1
  (load with \<open>shouldPlay: false\<close> leaves the clip ready and paused, play starts a
  loaded clip, stop halts and keeps the clip, unload releases it).
\<close>

definition video_load :: "string \<Rightarrow> video \<Rightarrow> video" where
  "video_load u v = \<lparr>source = Some u, playing = False\<rparr>"

definition video_play :: "video \<Rightarrow> video" where
  "video_play v = (if source v = None then v else v\<lparr>playing := True\<rparr>)"

definition video_stop :: "video \<Rightarrow> video" where
  "video_stop v = v\<lparr>playing := False\<rparr>"

definition video_unload :: "video \<Rightarrow> video" where
  "video_unload v = \<lparr>source = None, playing = False\<rparr>"

text \<open>\<open>id === 0 ? playerARef : playerBRef\<close> (lines 103-104), read and written.\<close>

definition ref_of :: "nat \<Rightarrow> player \<Rightarrow> video option" where
  "ref_of i s = (if i = 0 then playerARef s else playerBRef s)"

definition set_ref :: "nat \<Rightarrow> video \<Rightarrow> player \<Rightarrow> player" where
  "set_ref i v s = (if i = 0 then s\<lparr>playerARef := Some v\<rparr> else s\<lparr>playerBRef := Some v\<rparr>)"

text \<open>The outcome the library gives the next call: the head of \<open>host\<close>, or success when it is empty.\<close>

definition resolves :: "player \<Rightarrow> bool" where
  "resolves s = (case host s of [] \<Rightarrow> True | b # bs \<Rightarrow> b)"

text \<open>
  \<open>await ref.current?.method(...)\<close>: on a null ref nothing is called and the await
  resolves; otherwise the call is recorded and takes its outcome from \<open>host\<close>, and a
  call that resolves has its effect on the player while one that rejects leaves the
  player as it was and makes the await throw.
\<close>

definition call :: "nat \<Rightarrow> event \<Rightarrow> error \<Rightarrow> (video \<Rightarrow> video) \<Rightarrow> player \<Rightarrow> (error + unit) \<times> player" where
  "call i ev err eff s =
     (case ref_of i s of
        None \<Rightarrow> (Inr (), s)
      | Some v \<Rightarrow>
          (let s1 = s\<lparr>host := tl (host s), trace := trace s @ [ev]\<rparr>
           in if resolves s then (Inr (), set_ref i (eff v) s1) else (Inl err, s1)))"

definition loadAsync :: "nat \<Rightarrow> string \<Rightarrow> player \<Rightarrow> (error + unit) \<times> player" where
  "loadAsync i u = call i (LoadAsync i u) LoadError (video_load u)"

definition playAsync :: "nat \<Rightarrow> player \<Rightarrow> (error + unit) \<times> player" where
  "playAsync i = call i (PlayAsync i) PlayError video_play"

definition stopAsync :: "nat \<Rightarrow> player \<Rightarrow> (error + unit) \<times> player" where
  "stopAsync i = call i (StopAsync i) StopError video_stop"

definition unloadAsync :: "nat \<Rightarrow> player \<Rightarrow> (error + unit) \<times> player" where
  "unloadAsync i = call i (UnloadAsync i) UnloadError video_unload"

section \<open>handleTap (lines 92-126)\<close>

text \<open>\<open>onExit={() => setIsPlaying(false)}\<close> (line 247).\<close>

definition onExit :: "player \<Rightarrow> player" where
  "onExit s = s\<lparr>isPlaying := False, trace := trace s @ [OnExit]\<rparr>"

text \<open>\<open>activePlayerId === 0 ? 1 : 0\<close> (line 102); the same test picks the other ref in line 104.\<close>

definition other :: "nat \<Rightarrow> nat" where
  "other i = (if i = 0 then 1 else 0)"

text \<open>
  \<open>handleTap\<close> is an async function with three awaits. Its body is cut at the awaits
  into three parts, each running from where the previous await resolved to where the
  next one resolves; between two parts the component is suspended and other callbacks
  may run.

  Lines 93-107: the end-of-playlist test, the choice of the players, and
  \<open>await nextPlayerRef.current?.playAsync()\<close>. \<open>Inr None\<close> is the early return after
  \<open>onExit()\<close>, \<open>Inl\<close> the rejection of the await.
\<close>

definition handleTap_play :: "VideoStep list \<Rightarrow> player \<Rightarrow> (error + frame option) \<times> player" where
  "handleTap_play playlist s =
     (let nxt = currentIndex s + 1 in
      if nxt \<ge> length playlist then (Inr None, onExit s)
      else
        let nid = other (activePlayerId s) in
        (case playAsync nid s of
           (Inl e, s1) \<Rightarrow> (Inl e, s1)
         | (Inr u, s1) \<Rightarrow> (Inr (Some \<lparr>nextIndex = nxt, nextActiveId = nid\<rparr>), s1)))"

text \<open>
  Lines 110-114: \<open>setActivePlayerId(nextActiveId)\<close>, \<open>setCurrentIndex(nextIndex)\<close>,
  \<open>await prevPlayerRef.current?.stopAsync()\<close>.
\<close>

definition handleTap_swap :: "frame \<Rightarrow> player \<Rightarrow> (error + unit) \<times> player" where
  "handleTap_swap f s =
     (let s1 = s\<lparr>activePlayerId := nextActiveId f,
                 trace := trace s @ [SetActivePlayerId (nextActiveId f)]\<rparr>;
          s2 = s1\<lparr>currentIndex := nextIndex f,
                  trace := trace s1 @ [SetCurrentIndex (nextIndex f)]\<rparr>
      in stopAsync (other (nextActiveId f)) s2)"

text \<open>
  Lines 116-125: \<open>futureIndex\<close>, then \<open>loadAsync\<close> of the clip after the next one into
  the previous player, or \<open>unloadAsync\<close> when there is none.
\<close>

definition handleTap_preload :: "VideoStep list \<Rightarrow> frame \<Rightarrow> player \<Rightarrow> (error + unit) \<times> player" where
  "handleTap_preload playlist f s =
     (let futureIndex = nextIndex f + 1 in
      if futureIndex < length playlist
      then loadAsync (other (nextActiveId f)) (uri (playlist ! futureIndex)) s
      else unloadAsync (other (nextActiveId f)) s)"

text \<open>The locals a run started in state \<open>s\<close> computes (lines 93 and 102).\<close>

definition tap_frame :: "player \<Rightarrow> frame" where
  "tap_frame s = \<lparr>nextIndex = currentIndex s + 1, nextActiveId = other (activePlayerId s)\<rparr>"

text \<open>One run of \<open>handleTap\<close> that nothing interleaves with.\<close>

definition handleTap :: "VideoStep list \<Rightarrow> player \<Rightarrow> (error + unit) \<times> player" where
  "handleTap playlist s =
     (case handleTap_play playlist s of
        (Inl e, s1) \<Rightarrow> (Inl e, s1)
      | (Inr None, s1) \<Rightarrow> (Inr (), s1)
      | (Inr (Some f), s1) \<Rightarrow>
          (case handleTap_swap f s1 of
             (Inl e, s2) \<Rightarrow> (Inl e, s2)
           | (Inr u, s2) \<Rightarrow> handleTap_preload playlist f s2))"

text \<open>The events a step added to the trace.\<close>

definition new_events :: "player \<Rightarrow> player \<Rightarrow> event list" where
  "new_events s s' = drop (length (trace s)) (trace s')"

section \<open>The touch layer and the session\<close>

text \<open>
  \<open>onPress={handleTap}\<close> (line 167). The touch layer is rendered only while \<open>App\<close>
  renders the player (line 246) and the player is past its loading view (line 128);
  the promise \<open>handleTap\<close> returns is dropped.
\<close>

definition onPress :: "VideoStep list \<Rightarrow> player \<Rightarrow> player" where
  "onPress playlist s = (if isPlaying s \<and> isReady s then snd (handleTap playlist s) else s)"

text \<open>A number of presses, each after the run of the one before has finished.\<close>

primrec presses :: "VideoStep list \<Rightarrow> nat \<Rightarrow> player \<Rightarrow> player" where
  "presses playlist 0 s = s"
| "presses playlist (Suc k) s = onPress playlist (presses playlist k s)"

text \<open>
  The calls of the player on its host. \<open>onExit\<close> is the only function the host passes
  in (lines 45-51), so these are all the host hears from the player.
\<close>

definition host_calls :: "player \<Rightarrow> event list" where
  "host_calls s = filter (\<lambda>e. e = OnExit) (trace s)"

definition exit_count :: "player \<Rightarrow> nat" where
  "exit_count s = length (host_calls s)"

definition play_calls :: "event list \<Rightarrow> nat" where
  "play_calls evs = length (filter (\<lambda>e. case e of PlayAsync i \<Rightarrow> True | _ \<Rightarrow> False) evs)"

section \<open>loadInitialVideos (lines 64-90)\<close>

text \<open>
  The timer callback of lines 71-75: \<open>progress += 10; if (progress > 80)
  clearInterval(interval); setLoadingProgress(progress)\<close>. A cleared timer does not
  fire.
\<close>

definition tick :: "player \<Rightarrow> player" where
  "tick s =
     (if interval s
      then (let p = progress s + 10
            in s\<lparr>progress := p, interval := \<not> (p > 80), loadingProgress := p,
                 trace := trace s @ [SetLoadingProgress p]\<rparr>)
      else s)"

primrec ticks :: "nat \<Rightarrow> player \<Rightarrow> player" where
  "ticks 0 s = s"
| "ticks (Suc n) s = ticks n (tick s)"

text \<open>
  \<open>if (ref.current && playlist[i]) await ref.current.loadAsync({uri: playlist[i].uri},
  {shouldPlay: false})\<close> (lines 78-80 and 83-85), with \<open>t\<close> firings of the timer while
  the load is awaited. Without the call there is no await and the timer cannot fire.
\<close>

definition initial_load :: "VideoStep list \<Rightarrow> nat \<Rightarrow> nat \<Rightarrow> player \<Rightarrow> (error + unit) \<times> player" where
  "initial_load playlist i t s =
     (if ref_of i s \<noteq> None \<and> i < length playlist
      then (case loadAsync i (uri (playlist ! i)) s of (r, s1) \<Rightarrow> (r, ticks t s1))
      else (Inr (), s))"

text \<open>
  \<open>loadInitialVideos\<close>; \<open>ta\<close> and \<open>tb\<close> are the numbers of timer firings during the
  first and the second await. A rejected load ends the function there, before
  \<open>clearInterval\<close>, \<open>setLoadingProgress(100)\<close> and the \<open>setTimeout\<close> of \<open>setIsReady(true)\<close>.
\<close>

definition loadInitialVideos :: "VideoStep list \<Rightarrow> nat \<Rightarrow> nat \<Rightarrow> player \<Rightarrow> (error + unit) \<times> player" where
  "loadInitialVideos playlist ta tb s =
     (case initial_load playlist 0 ta (s\<lparr>progress := 0, interval := True\<rparr>) of
        (Inl e, s1) \<Rightarrow> (Inl e, s1)
      | (Inr u, s1) \<Rightarrow>
          (case initial_load playlist 1 tb s1 of
             (Inl e, s2) \<Rightarrow> (Inl e, s2)
           | (Inr u, s2) \<Rightarrow>
               (Inr (), s2\<lparr>interval := False, loadingProgress := 100,
                            trace := trace s2 @ [SetLoadingProgress 100],
                            readyTimeout := True\<rparr>)))"

text \<open>\<open>useEffect(() => { loadInitialVideos(); }, [])\<close> (lines 64-66): the promise is dropped.\<close>

definition useEffect_mount :: "VideoStep list \<Rightarrow> nat \<Rightarrow> nat \<Rightarrow> player \<Rightarrow> player" where
  "useEffect_mount playlist ta tb s = snd (loadInitialVideos playlist ta tb s)"

text \<open>
  The callback of line 89, \<open>() => setIsReady(true)\<close>, when its timeout is pending, and
  the render that follows. Until then the component returns its loading view (lines
  128-138); now it returns the two \<open>Video\<close> elements (lines 140-171), which are created
  with nothing loaded, and the refs point to them.
\<close>

definition timeout_fires :: "player \<Rightarrow> player" where
  "timeout_fires s =
     (if readyTimeout s
      then s\<lparr>readyTimeout := False, isReady := True,
             playerARef := Some \<lparr>source = None, playing = False\<rparr>,
             playerBRef := Some \<lparr>source = None, playing = False\<rparr>,
             trace := trace s @ [SetIsReady True]\<rparr>
      else s)"

text \<open>
  A freshly mounted player: the initial values of the \<open>useState\<close> cells (lines 52-54,
  61) and of the two refs (\<open>useRef(null)\<close>, lines 57-58), \<open>isPlaying\<close> set by the host,
  and the outcomes to come as given.
\<close>

definition initial :: "bool list \<Rightarrow> player" where
  "initial h =
     \<lparr>currentIndex = 0, isReady = False, loadingProgress = 0, activePlayerId = 0,
      playerARef = None, playerBRef = None, progress = 0, interval = False,
      readyTimeout = False, isPlaying = True, host = h, trace = []\<rparr>"

text \<open>What can happen to a mounted player: a timer firing, the timeout firing, a press.\<close>

datatype input = TimerTick | TimeoutFires | Press

fun fire :: "VideoStep list \<Rightarrow> player \<Rightarrow> input \<Rightarrow> player" where
  "fire playlist s TimerTick = tick s"
| "fire playlist s TimeoutFires = timeout_fires s"
| "fire playlist s Press = onPress playlist s"

text \<open>
  A session: the player is mounted, its mount effect runs, with \<open>ta\<close> and \<open>tb\<close> timer
  firings during its awaits, and then the inputs happen one after the other.
\<close>

definition session :: "VideoStep list \<Rightarrow> nat \<Rightarrow> nat \<Rightarrow> bool list \<Rightarrow> input list \<Rightarrow> player" where
  "session playlist ta tb h inps =
     foldl (fire playlist) (useEffect_mount playlist ta tb (initial h)) inps"

text \<open>The session at the moment it has become ready, before any press.\<close>

definition started :: "VideoStep list \<Rightarrow> bool list \<Rightarrow> player" where
  "started playlist h = session playlist 0 0 h [TimeoutFires]"

text \<open>The values passed to \<open>setLoadingProgress\<close>, in order.\<close>

primrec published :: "event list \<Rightarrow> nat list" where
  "published [] = []"
| "published (e # es) =
     (case e of SetLoadingProgress p \<Rightarrow> p # published es | _ \<Rightarrow> published es)"

section \<open>What is rendered (lines 140-171)\<close>

text \<open>\<open>opacity: activePlayerId === i ? 1 : 0\<close> (lines 145 and 156).\<close>

definition opacity :: "player \<Rightarrow> nat \<Rightarrow> nat" where
  "opacity s i = (if activePlayerId s = i then 1 else 0)"

text \<open>
  Exactly one player is playing, it is the opaque one, and the other is ready, loading
  or empty.
\<close>

definition one_playing_opaque :: "player \<Rightarrow> bool" where
  "one_playing_opaque s =
     (case (playerARef s, playerBRef s) of
        (Some a, Some b) \<Rightarrow>
          (phase_of a = Playing \<and> opacity s 0 = 1 \<and> phase_of b \<in> {Ready, Loading, Empty})
          \<or> (phase_of b = Playing \<and> opacity s 1 = 1 \<and> phase_of a \<in> {Ready, Loading, Empty})
      | _ \<Rightarrow> False)"

text \<open>Both players are playing.\<close>

definition both_playing :: "player \<Rightarrow> bool" where
  "both_playing s =
     (case (playerARef s, playerBRef s) of
        (Some a, Some b) \<Rightarrow> phase_of a = Playing \<and> phase_of b = Playing
      | _ \<Rightarrow> False)"

text \<open>
  What the standby player holds when the cursor is \<open>c\<close> and the clip after it has been
  preloaded: the clip at position \<open>c + 1\<close>, loaded and paused, or nothing when \<open>c\<close> is the
  last position.
\<close>

definition standby_video :: "VideoStep list \<Rightarrow> nat \<Rightarrow> video" where
  "standby_video playlist c =
     (if c + 1 < length playlist
      then \<lparr>source = Some (uri (playlist ! (c + 1))), playing = False\<rparr>
      else \<lparr>source = None, playing = False\<rparr>)"

text \<open>
  What a player holds, if it holds anything, is a clip at a position of the playlist
  whose parity is \<open>i\<close>.
\<close>

definition clip_parity :: "VideoStep list \<Rightarrow> nat \<Rightarrow> video option \<Rightarrow> bool" where
  "clip_parity playlist i r =
     (case r of
        None \<Rightarrow> True
      | Some v \<Rightarrow>
          (case source v of
             None \<Rightarrow> True
           | Some u \<Rightarrow> (\<exists>k<length playlist. uri (playlist ! k) = u \<and> k mod 2 = i)))"

text \<open>
  What every state of a session satisfies: the active player id is the parity of the
  cursor, both players are mounted once the player is ready, and player A holds only
  clips at even positions, player B only clips at odd positions.
\<close>

definition session_inv :: "VideoStep list \<Rightarrow> player \<Rightarrow> bool" where
  "session_inv playlist s =
     (activePlayerId s = currentIndex s mod 2
      \<and> (isReady s \<longrightarrow> playerARef s \<noteq> None \<and> playerBRef s \<noteq> None)
      \<and> clip_parity playlist 0 (playerARef s) \<and> clip_parity playlist 1 (playerBRef s))"

text \<open>
  After the mount effect the timer is cleared and 100 is the one value that has been
  published.
\<close>

definition published_100 :: "player \<Rightarrow> bool" where
  "published_100 s = (\<not> interval s \<and> published (trace s) = [100])"

text \<open>Every outcome still to come is a success.\<close>

definition all_resolve :: "player \<Rightarrow> bool" where
  "all_resolve s = list_all (\<lambda>b. b) (host s)"

section \<open>Concrete playlists and states\<close>

definition clip :: "string \<Rightarrow> nat \<Rightarrow> VideoStep" where
  "clip u n = \<lparr>step_id = u, stepNumber = n, uri = u, filename = u\<rparr>"

definition one_clip :: "VideoStep list" where
  "one_clip = [clip ''a.mov'' 1]"

definition two_clips :: "VideoStep list" where
  "two_clips = [clip ''a.mov'' 1, clip ''b.mov'' 2]"

definition three_clips :: "VideoStep list" where
  "three_clips = [clip ''a.mov'' 1, clip ''b.mov'' 2, clip ''c.mov'' 3]"

definition four_clips :: "VideoStep list" where
  "four_clips = [clip ''a.mov'' 1, clip ''b.mov'' 2, clip ''c.mov'' 3, clip ''d.mov'' 4]"

section \<open>Basic facts\<close>

lemmas calls_defs = loadAsync_def playAsync_def stopAsync_def unloadAsync_def call_def
  ref_of_def set_ref_def

lemmas tap_defs = handleTap_def handleTap_play_def handleTap_swap_def handleTap_preload_def

lemmas demo_defs = clip_def one_clip_def two_clips_def three_clips_def four_clips_def

lemma all_resolve_resolves: "all_resolve s \<Longrightarrow> resolves s"
  by (cases "host s") (simp_all add: all_resolve_def resolves_def)

lemma all_resolve_tl: "all_resolve s \<Longrightarrow> list_all (\<lambda>b. b) (tl (host s))"
  by (cases "host s") (simp_all add: all_resolve_def)

lemma call_fields:
  "currentIndex (snd (call i ev err eff s)) = currentIndex s"
  "activePlayerId (snd (call i ev err eff s)) = activePlayerId s"
  "isReady (snd (call i ev err eff s)) = isReady s"
  "isPlaying (snd (call i ev err eff s)) = isPlaying s"
  "progress (snd (call i ev err eff s)) = progress s"
  "interval (snd (call i ev err eff s)) = interval s"
  "readyTimeout (snd (call i ev err eff s)) = readyTimeout s"
  "loadingProgress (snd (call i ev err eff s)) = loadingProgress s"
  by (simp_all add: call_def set_ref_def Let_def split: option.splits)

lemma call_trace:
  "trace (snd (call i ev err eff s)) = trace s @ (if ref_of i s = None then [] else [ev])"
  by (simp add: call_def set_ref_def Let_def split: option.splits)

lemma call_host:
  "host (snd (call i ev err eff s)) = (if ref_of i s = None then host s else tl (host s))"
  by (simp add: call_def set_ref_def Let_def split: option.splits)

lemma call_all_resolve: "all_resolve s \<Longrightarrow> all_resolve (snd (call i ev err eff s))"
  using all_resolve_tl [of s] by (simp add: all_resolve_def call_host)

lemma call_resolving: "all_resolve s \<Longrightarrow> fst (call i ev err eff s) = Inr ()"
  using all_resolve_resolves [of s] by (simp add: call_def Let_def split: option.splits)

lemma call_result: "fst (call i ev err eff s) = Inr () \<or> fst (call i ev err eff s) = Inl err"
  by (simp add: call_def Let_def split: option.splits)

lemma host_calls_append: "host_calls (s\<lparr>trace := trace s @ evs\<rparr>) = host_calls s @ filter (\<lambda>e. e = OnExit) evs"
  by (simp add: host_calls_def)

lemma call_exit_count:
  "ev \<noteq> OnExit \<Longrightarrow> exit_count (snd (call i ev err eff s)) = exit_count s"
  by (simp add: exit_count_def host_calls_def call_trace)

lemma call_keeps:
  assumes "call i ev err eff s = (r, s')" and "ev \<noteq> OnExit"
  shows "isReady s' = isReady s" and "isPlaying s' = isPlaying s"
    and "exit_count s' = exit_count s" and "readyTimeout s' = readyTimeout s"
    and "currentIndex s' = currentIndex s" and "activePlayerId s' = activePlayerId s"
    and "all_resolve s \<Longrightarrow> all_resolve s'" and "all_resolve s \<Longrightarrow> r = Inr ()"
    and "r = Inr () \<or> r = Inl err"
proof -
  have s': "s' = snd (call i ev err eff s)" and r: "r = fst (call i ev err eff s)"
    using assms(1) by simp_all
  show "isReady s' = isReady s" "isPlaying s' = isPlaying s" "readyTimeout s' = readyTimeout s"
    "currentIndex s' = currentIndex s" "activePlayerId s' = activePlayerId s"
    by (simp_all add: s' call_fields)
  show "exit_count s' = exit_count s" using assms(2) by (simp add: s' call_exit_count)
  show "all_resolve s \<Longrightarrow> all_resolve s'" by (simp add: s' call_all_resolve)
  show "all_resolve s \<Longrightarrow> r = Inr ()" by (simp add: r call_resolving)
  show "r = Inr () \<or> r = Inl err" using call_result [of i ev err eff s] by (simp add: r)
qed

lemma handleTap_swap_keeps:
  assumes "handleTap_swap f s = (r, s')"
  shows "isReady s' = isReady s" and "isPlaying s' = isPlaying s"
    and "exit_count s' = exit_count s" and "readyTimeout s' = readyTimeout s"
    and "currentIndex s' = nextIndex f" and "activePlayerId s' = nextActiveId f"
    and "all_resolve s \<Longrightarrow> all_resolve s'" and "all_resolve s \<Longrightarrow> r = Inr ()"
    and "r = Inr () \<or> r = Inl StopError"
  using assms
  by (auto simp: handleTap_swap_def stopAsync_def Let_def exit_count_def host_calls_def
      all_resolve_def dest: call_keeps)

lemma handleTap_preload_keeps:
  assumes "handleTap_preload playlist f s = (r, s')"
  shows "isReady s' = isReady s" and "isPlaying s' = isPlaying s"
    and "exit_count s' = exit_count s" and "readyTimeout s' = readyTimeout s"
    and "currentIndex s' = currentIndex s" and "activePlayerId s' = activePlayerId s"
    and "all_resolve s \<Longrightarrow> all_resolve s'" and "all_resolve s \<Longrightarrow> r = Inr ()"
    and "r \<noteq> Inl PlayError"
  using assms
  by (auto simp: handleTap_preload_def loadAsync_def unloadAsync_def Let_def
      split: if_splits dest: call_keeps)

lemma handleTap_next:
  assumes "currentIndex s + 1 < length playlist"
  shows "handleTap playlist s =
     (case playAsync (other (activePlayerId s)) s of
        (Inl e, s1) \<Rightarrow> (Inl e, s1)
      | (Inr u, s1) \<Rightarrow>
          (case handleTap_swap (tap_frame s) s1 of
             (Inl e, s2) \<Rightarrow> (Inl e, s2)
           | (Inr u, s2) \<Rightarrow> handleTap_preload playlist (tap_frame s) s2))"
  using assms
  by (simp add: handleTap_def handleTap_play_def tap_frame_def Let_def
      split: prod.splits sum.splits)

lemma handleTap_exit:
  assumes "length playlist \<le> currentIndex s + 1"
  shows "handleTap playlist s = (Inr (), onExit s)"
  using assms by (simp add: handleTap_def handleTap_play_def)

text \<open>A run with a next clip: what it keeps, and what it does to the cursor.\<close>

lemma handleTap_next_facts:
  assumes nx: "currentIndex s + 1 < length playlist" and run: "handleTap playlist s = (r, s')"
  shows "isReady s' = isReady s" and "isPlaying s' = isPlaying s"
    and "exit_count s' = exit_count s" and "readyTimeout s' = readyTimeout s"
    and "all_resolve s \<Longrightarrow> all_resolve s'" and "all_resolve s \<Longrightarrow> r = Inr ()"
    and "if r = Inl PlayError
         then currentIndex s' = currentIndex s \<and> activePlayerId s' = activePlayerId s
         else currentIndex s' = currentIndex s + 1 \<and> activePlayerId s' = other (activePlayerId s)"
proof -
  obtain r1 s1 where p: "call (other (activePlayerId s)) (PlayAsync (other (activePlayerId s)))
      PlayError video_play s = (r1, s1)"
    by fastforce
  have ne: "PlayAsync (other (activePlayerId s)) \<noteq> OnExit" by simp
  note k1 = call_keeps [OF p ne]
  obtain r2 s2 where q: "handleTap_swap (tap_frame s) s1 = (r2, s2)"
    by fastforce
  note k2 = handleTap_swap_keeps [OF q]
  obtain r3 s3 where w: "handleTap_preload playlist (tap_frame s) s2 = (r3, s3)"
    by fastforce
  note k3 = handleTap_preload_keeps [OF w]
  consider (play) "r1 = Inl PlayError" "r = Inl PlayError" "s' = s1"
    | (stop) "r1 = Inr ()" "r2 = Inl StopError" "r = Inl StopError" "s' = s2"
    | (rest) "r1 = Inr ()" "r2 = Inr ()" "r = r3" "s' = s3"
    using run p q w k1(9) k2(9)
    by (auto simp: handleTap_next [OF nx] playAsync_def)
  then have all: "isReady s' = isReady s \<and> isPlaying s' = isPlaying s
      \<and> exit_count s' = exit_count s \<and> readyTimeout s' = readyTimeout s
      \<and> (all_resolve s \<longrightarrow> all_resolve s' \<and> r = Inr ())
      \<and> (if r = Inl PlayError
         then currentIndex s' = currentIndex s \<and> activePlayerId s' = activePlayerId s
         else currentIndex s' = currentIndex s + 1 \<and> activePlayerId s' = other (activePlayerId s))"
  proof cases
    case play
    then show ?thesis using k1 by auto
  next
    case stop
    then show ?thesis using k1 k2 by (auto simp: tap_frame_def)
  next
    case rest
    then show ?thesis using k1 k2 k3 by (auto simp: tap_frame_def)
  qed
  from all show "isReady s' = isReady s" and "isPlaying s' = isPlaying s"
    and "exit_count s' = exit_count s" and "readyTimeout s' = readyTimeout s"
    and "all_resolve s \<Longrightarrow> all_resolve s'" and "all_resolve s \<Longrightarrow> r = Inr ()"
    and "if r = Inl PlayError
         then currentIndex s' = currentIndex s \<and> activePlayerId s' = activePlayerId s
         else currentIndex s' = currentIndex s + 1 \<and> activePlayerId s' = other (activePlayerId s)"
    by simp_all
qed

lemma onExit_fields:
  "currentIndex (onExit s) = currentIndex s" "activePlayerId (onExit s) = activePlayerId s"
  "isReady (onExit s) = isReady s" "\<not> isPlaying (onExit s)"
  "exit_count (onExit s) = exit_count s + 1" "readyTimeout (onExit s) = readyTimeout s"
  "playerARef (onExit s) = playerARef s" "playerBRef (onExit s) = playerBRef s"
  by (simp_all add: onExit_def exit_count_def host_calls_def)

lemma tick_fields:
  "currentIndex (tick s) = currentIndex s" "activePlayerId (tick s) = activePlayerId s"
  "isReady (tick s) = isReady s" "isPlaying (tick s) = isPlaying s"
  "readyTimeout (tick s) = readyTimeout s" "exit_count (tick s) = exit_count s"
  "host (tick s) = host s" "playerARef (tick s) = playerARef s" "playerBRef (tick s) = playerBRef s"
  by (simp_all add: tick_def Let_def exit_count_def host_calls_def)

lemma call_ok:
  "ref_of i s = Some v \<Longrightarrow> resolves s \<Longrightarrow>
   call i ev err eff s =
     (Inr (), set_ref i (eff v) (s\<lparr>host := tl (host s), trace := trace s @ [ev]\<rparr>))"
  by (simp add: call_def)

lemma ref_of_set_ref:
  "ref_of i (set_ref j v s) = (if (i = 0) = (j = 0) then Some v else ref_of i s)"
  by (simp add: ref_of_def set_ref_def)

lemma set_ref_fields:
  "currentIndex (set_ref j v s) = currentIndex s" "activePlayerId (set_ref j v s) = activePlayerId s"
  "host (set_ref j v s) = host s" "trace (set_ref j v s) = trace s"
  by (simp_all add: set_ref_def)

lemma call_fail:
  "ref_of i s = Some v \<Longrightarrow> \<not> resolves s \<Longrightarrow>
   call i ev err eff s = (Inl err, s\<lparr>host := tl (host s), trace := trace s @ [ev]\<rparr>)"
  by (simp add: call_def)

text \<open>A run with a next clip and both players mounted that succeeds.\<close>

lemma handleTap_succeeded:
  assumes nx: "currentIndex s + 1 < length playlist"
    and vn: "ref_of (other (activePlayerId s)) s = Some vn"
    and vp: "ref_of (other (other (activePlayerId s))) s = Some vp"
    and ok: "fst (handleTap playlist s) = Inr ()"
  shows "ref_of (other (activePlayerId s)) (snd (handleTap playlist s)) = Some (video_play vn)"
    and "ref_of (other (other (activePlayerId s))) (snd (handleTap playlist s))
           = Some (standby_video playlist (currentIndex s + 1))"
    and "trace (snd (handleTap playlist s)) = trace s @
           [PlayAsync (other (activePlayerId s)), SetActivePlayerId (other (activePlayerId s)),
            SetCurrentIndex (currentIndex s + 1), StopAsync (other (other (activePlayerId s))),
            if currentIndex s + 2 < length playlist
            then LoadAsync (other (other (activePlayerId s))) (uri (playlist ! (currentIndex s + 2)))
            else UnloadAsync (other (other (activePlayerId s)))]"
proof -
  define n where "n = other (activePlayerId s)"
  define p where "p = other n"
  have np: "(p = 0) \<noteq> (n = 0)" by (simp add: p_def other_def)
  have rs: "resolves s"
  proof (rule ccontr)
    assume "\<not> resolves s"
    with vn have "playAsync n s =
        (Inl PlayError, s\<lparr>host := tl (host s), trace := trace s @ [PlayAsync n]\<rparr>)"
      by (simp add: playAsync_def call_fail n_def)
    then have "fst (handleTap playlist s) = Inl PlayError"
      by (simp add: handleTap_next [OF nx] n_def [symmetric])
    with ok show False by simp
  qed
  define s1 where "s1 = set_ref n (video_play vn) (s\<lparr>host := tl (host s), trace := trace s @ [PlayAsync n]\<rparr>)"
  have 1: "playAsync n s = (Inr (), s1)"
    using vn rs by (simp add: playAsync_def call_ok n_def s1_def)
  define x where "x = s1\<lparr>activePlayerId := n, currentIndex := Suc (currentIndex s),
      trace := trace s1 @ [SetActivePlayerId n, SetCurrentIndex (Suc (currentIndex s))]\<rparr>"
  have vpx: "ref_of p x = Some vp"
    using vp np by (simp add: x_def s1_def p_def n_def ref_of_def set_ref_def split: if_splits)
  have swap: "handleTap_swap (tap_frame s) s1 = stopAsync p x"
    by (simp add: handleTap_swap_def tap_frame_def Let_def n_def [symmetric] p_def [symmetric]
        x_def)
  have rx: "resolves x"
  proof (rule ccontr)
    assume "\<not> resolves x"
    with vpx have "stopAsync p x =
        (Inl StopError, x\<lparr>host := tl (host x), trace := trace x @ [StopAsync p]\<rparr>)"
      by (simp add: stopAsync_def call_fail)
    then have "fst (handleTap playlist s) = Inl StopError"
      by (simp add: handleTap_next [OF nx] n_def [symmetric] 1 swap)
    with ok show False by simp
  qed
  define s2 where "s2 = set_ref p (video_stop vp) (x\<lparr>host := tl (host x), trace := trace x @ [StopAsync p]\<rparr>)"
  have 2: "handleTap_swap (tap_frame s) s1 = (Inr (), s2)"
    using vpx rx by (simp add: swap stopAsync_def call_ok s2_def)
  have vp2: "ref_of p s2 = Some (video_stop vp)"
    by (simp add: s2_def ref_of_set_ref)
  define ev where "ev = (if currentIndex s + 2 < length playlist
      then LoadAsync p (uri (playlist ! (currentIndex s + 2))) else UnloadAsync p)"
  have r2: "resolves s2"
  proof (rule ccontr)
    assume "\<not> resolves s2"
    with vp2 have "fst (handleTap_preload playlist (tap_frame s) s2) \<noteq> Inr ()"
      by (simp add: handleTap_preload_def tap_frame_def Let_def loadAsync_def unloadAsync_def
          n_def [symmetric] p_def [symmetric] call_fail)
    then have "fst (handleTap playlist s) \<noteq> Inr ()"
      by (simp add: handleTap_next [OF nx] n_def [symmetric] 1 2)
    with ok show False by simp
  qed
  define s3 where "s3 = set_ref p (standby_video playlist (currentIndex s + 1))
      (s2\<lparr>host := tl (host s2), trace := trace s2 @ [ev]\<rparr>)"
  have 3: "handleTap_preload playlist (tap_frame s) s2 = (Inr (), s3)"
    using vp2 r2
    by (simp add: handleTap_preload_def tap_frame_def Let_def loadAsync_def unloadAsync_def
        n_def [symmetric] p_def [symmetric] call_ok s3_def ev_def standby_video_def
        video_load_def video_unload_def)
  have run: "handleTap playlist s = (Inr (), s3)"
    by (simp add: handleTap_next [OF nx] n_def [symmetric] 1 2 3)
  show "ref_of (other (activePlayerId s)) (snd (handleTap playlist s)) = Some (video_play vn)"
    using np
    by (simp add: run n_def [symmetric] s3_def s2_def x_def s1_def ref_of_def set_ref_def
        split: if_splits)
  show "ref_of (other (other (activePlayerId s))) (snd (handleTap playlist s))
           = Some (standby_video playlist (currentIndex s + 1))"
    by (simp add: run n_def [symmetric] p_def [symmetric] s3_def ref_of_set_ref)
  show "trace (snd (handleTap playlist s)) = trace s @
           [PlayAsync (other (activePlayerId s)), SetActivePlayerId (other (activePlayerId s)),
            SetCurrentIndex (currentIndex s + 1), StopAsync (other (other (activePlayerId s))),
            if currentIndex s + 2 < length playlist
            then LoadAsync (other (other (activePlayerId s))) (uri (playlist ! (currentIndex s + 2)))
            else UnloadAsync (other (other (activePlayerId s)))]"
    by (simp add: run n_def [symmetric] p_def [symmetric] s3_def s2_def x_def s1_def
        set_ref_fields ev_def)
qed

lemma published_append: "published (xs @ ys) = published xs @ published ys"
  by (induction xs) (simp_all split: event.splits)

text \<open>
  The two \<open>Video\<close> elements are rendered only once \<open>isReady\<close> is set (before that,
  lines 128-138 return the loading view), so both refs are still null when the mount
  effect runs. The guards of lines 78 and 83 fail, \<open>loadInitialVideos\<close> issues no load,
  has no await during which the timer could fire, and goes straight to its end.
\<close>

lemma loadInitialVideos_null_refs:
  "loadInitialVideos playlist ta tb (initial h) =
     (Inr (), (initial h)\<lparr>interval := False, loadingProgress := 100,
                trace := [SetLoadingProgress 100], readyTimeout := True\<rparr>)"
  by (simp add: loadInitialVideos_def initial_load_def ref_of_def initial_def)

text \<open>The player after its mount effect, and at the moment it has become ready.\<close>

lemma useEffect_mount_initial:
  "useEffect_mount playlist ta tb (initial h) =
     \<lparr>currentIndex = 0, isReady = False, loadingProgress = 100, activePlayerId = 0,
      playerARef = None, playerBRef = None, progress = 0, interval = False,
      readyTimeout = True, isPlaying = True, host = h, trace = [SetLoadingProgress 100]\<rparr>"
  by (simp add: useEffect_mount_def loadInitialVideos_null_refs) (simp add: initial_def)

lemma session_ready:
  "session playlist ta tb h [TimeoutFires] =
     \<lparr>currentIndex = 0, isReady = True, loadingProgress = 100, activePlayerId = 0,
      playerARef = Some \<lparr>source = None, playing = False\<rparr>,
      playerBRef = Some \<lparr>source = None, playing = False\<rparr>, progress = 0, interval = False,
      readyTimeout = False, isPlaying = True, host = h,
      trace = [SetLoadingProgress 100, SetIsReady True]\<rparr>"
  by (simp add: session_def useEffect_mount_initial timeout_fires_def)

lemma started_eq:
  "started playlist h =
     \<lparr>currentIndex = 0, isReady = True, loadingProgress = 100, activePlayerId = 0,
      playerARef = Some \<lparr>source = None, playing = False\<rparr>,
      playerBRef = Some \<lparr>source = None, playing = False\<rparr>, progress = 0, interval = False,
      readyTimeout = False, isPlaying = True, host = h,
      trace = [SetLoadingProgress 100, SetIsReady True]\<rparr>"
  by (simp add: started_def session_ready)

lemma handleTap_swap_fields:
  "currentIndex (snd (handleTap_swap f s)) = nextIndex f"
  "activePlayerId (snd (handleTap_swap f s)) = nextActiveId f"
  by (simp_all add: handleTap_swap_def stopAsync_def call_fields Let_def)

lemma handleTap_play_result:
  assumes "currentIndex s + 1 < length playlist"
  shows "fst (handleTap_play playlist s) = Inr (Some (tap_frame s))
       \<or> fst (handleTap_play playlist s) = Inl PlayError"
  using assms call_result [of "other (activePlayerId s)" "PlayAsync (other (activePlayerId s))"
      PlayError video_play s]
  by (cases "call (other (activePlayerId s)) (PlayAsync (other (activePlayerId s)))
      PlayError video_play s")
     (auto simp: handleTap_play_def playAsync_def tap_frame_def Let_def)

lemma handleTap_play_snd:
  assumes "currentIndex s + 1 < length playlist"
  shows "snd (handleTap_play playlist s) = snd (playAsync (other (activePlayerId s)) s)"
  using assms
  by (simp add: handleTap_play_def Let_def split: prod.splits sum.splits)

lemma tap_frame_playAsync: "tap_frame (snd (playAsync i s)) = tap_frame s"
  by (simp add: tap_frame_def playAsync_def call_fields)

lemma ref_of_call_None: "(ref_of j (snd (call i ev err eff s)) = None) = (ref_of j s = None)"
  by (simp add: call_def Let_def ref_of_def set_ref_def split: option.splits)

text \<open>The three states a run with a next clip can end in.\<close>

lemma handleTap_next_snd:
  assumes "currentIndex s + 1 < length playlist"
  shows "snd (handleTap playlist s) = snd (playAsync (other (activePlayerId s)) s)
       \<or> snd (handleTap playlist s)
           = snd (handleTap_swap (tap_frame s) (snd (playAsync (other (activePlayerId s)) s)))
       \<or> snd (handleTap playlist s)
           = snd (handleTap_preload playlist (tap_frame s)
               (snd (handleTap_swap (tap_frame s) (snd (playAsync (other (activePlayerId s)) s)))))"
  unfolding handleTap_next [OF assms]
  by (auto split: prod.splits sum.splits)

lemma call_published:
  "published [ev] = [] \<Longrightarrow> published (trace (snd (call i ev err eff s))) = published (trace s)"
  by (simp add: call_trace published_append)

lemma playAsync_published_100: "published_100 s \<Longrightarrow> published_100 (snd (playAsync i s))"
  by (simp add: published_100_def playAsync_def call_fields call_published)

lemma handleTap_swap_published_100: "published_100 s \<Longrightarrow> published_100 (snd (handleTap_swap f s))"
  by (simp add: published_100_def handleTap_swap_def stopAsync_def Let_def call_fields
      call_published published_append)

lemma handleTap_preload_published_100:
  "published_100 s \<Longrightarrow> published_100 (snd (handleTap_preload playlist f s))"
  by (simp add: published_100_def handleTap_preload_def loadAsync_def unloadAsync_def Let_def
      call_fields call_published)

lemma handleTap_published_100:
  assumes "published_100 s"
  shows "published_100 (snd (handleTap playlist s))"
proof (cases "currentIndex s + 1 < length playlist")
  case False
  then show ?thesis
    using assms by (simp add: handleTap_exit onExit_def published_100_def published_append)
next
  case True
  from handleTap_next_snd [OF True] show ?thesis
    using assms
    by (auto simp: playAsync_published_100 handleTap_swap_published_100
        handleTap_preload_published_100)
qed

lemma fire_published_100: "published_100 s \<Longrightarrow> published_100 (fire playlist s i)"
  by (cases i)
     (simp_all add: tick_def timeout_fires_def onPress_def handleTap_published_100,
      simp_all add: published_100_def published_append)

lemma run_published_100:
  "published_100 s \<Longrightarrow> published_100 (foldl (fire playlist) s inps)"
  by (induction inps arbitrary: s) (simp_all add: fire_published_100)

text \<open>
  A media call keeps the invariant of a session when its effect keeps what the player
  holds within the parity of that player.
\<close>

lemma call_session_inv:
  assumes "session_inv playlist s"
    and "\<And>v. clip_parity playlist (if i = 0 then 0 else 1) (Some v)
            \<Longrightarrow> clip_parity playlist (if i = 0 then 0 else 1) (Some (eff v))"
  shows "session_inv playlist (snd (call i ev err eff s))"
  using assms
  by (auto simp: session_inv_def call_def Let_def ref_of_def set_ref_def split: option.splits)

lemma clip_parity_same_source:
  "source w = source v \<Longrightarrow> clip_parity playlist i (Some v) \<Longrightarrow> clip_parity playlist i (Some w)"
  by (simp add: clip_parity_def)

lemma playAsync_session_inv: "session_inv playlist s \<Longrightarrow> session_inv playlist (snd (playAsync i s))"
  unfolding playAsync_def
  by (rule call_session_inv) (auto elim!: clip_parity_same_source [rotated] simp: video_play_def)

lemma other_parity: "other (c mod 2) = Suc c mod 2"
  by (simp add: other_def mod_Suc)

lemma handleTap_swap_session_inv:
  assumes "session_inv playlist s"
  shows "session_inv playlist (snd (handleTap_swap (tap_frame s) s))"
proof -
  define x where "x = s\<lparr>activePlayerId := other (activePlayerId s),
      currentIndex := Suc (currentIndex s),
      trace := trace s @ [SetActivePlayerId (other (activePlayerId s)),
                          SetCurrentIndex (Suc (currentIndex s))]\<rparr>"
  have "session_inv playlist x"
    using assms by (simp add: session_inv_def x_def other_parity)
  then have "session_inv playlist (snd (stopAsync (other (other (activePlayerId s))) x))"
    unfolding stopAsync_def
    by (rule call_session_inv) (auto elim!: clip_parity_same_source [rotated] simp: video_stop_def)
  then show ?thesis
    by (simp add: handleTap_swap_def tap_frame_def Let_def x_def)
qed

lemma handleTap_preload_session_inv:
  assumes "session_inv playlist s"
    and "nextIndex f = currentIndex s" and "nextActiveId f = activePlayerId s"
  shows "session_inv playlist (snd (handleTap_preload playlist f s))"
proof (cases "currentIndex s + 1 < length playlist")
  case False
  then have "handleTap_preload playlist f s = unloadAsync (other (activePlayerId s)) s"
    by (simp add: handleTap_preload_def assms(2,3))
  moreover have "session_inv playlist (snd (unloadAsync (other (activePlayerId s)) s))"
    unfolding unloadAsync_def using assms(1)
    by (rule call_session_inv) (simp add: clip_parity_def video_unload_def)
  ultimately show ?thesis by simp
next
  case True
  then have "handleTap_preload playlist f s
      = loadAsync (other (activePlayerId s)) (uri (playlist ! (currentIndex s + 1))) s"
    by (simp add: handleTap_preload_def assms(2,3))
  moreover have "session_inv playlist
      (snd (loadAsync (other (activePlayerId s)) (uri (playlist ! (currentIndex s + 1))) s))"
    unfolding loadAsync_def using assms(1)
  proof (rule call_session_inv)
    fix v
    have "activePlayerId s = currentIndex s mod 2"
      using assms(1) by (simp add: session_inv_def)
    then have "(if other (activePlayerId s) = 0 then 0 else 1) = (currentIndex s + 1) mod 2"
      by (auto simp: other_def mod_Suc)
    with True show "clip_parity playlist (if other (activePlayerId s) = 0 then 0 else 1)
        (Some (video_load (uri (playlist ! (currentIndex s + 1))) v))"
      by (auto simp: clip_parity_def video_load_def)
  qed
  ultimately show ?thesis by simp
qed

lemma handleTap_session_inv:
  assumes "session_inv playlist s"
  shows "session_inv playlist (snd (handleTap playlist s))"
proof (cases "currentIndex s + 1 < length playlist")
  case False
  then show ?thesis
    using assms by (simp add: handleTap_exit onExit_def session_inv_def)
next
  case True
  define s1 where "s1 = snd (playAsync (other (activePlayerId s)) s)"
  define s2 where "s2 = snd (handleTap_swap (tap_frame s) s1)"
  have f1: "tap_frame s1 = tap_frame s" by (simp add: s1_def tap_frame_playAsync)
  have i1: "session_inv playlist s1" using assms by (simp add: s1_def playAsync_session_inv)
  then have i2: "session_inv playlist s2"
    using handleTap_swap_session_inv [of playlist s1] by (simp add: s2_def f1)
  have "nextIndex (tap_frame s) = currentIndex s2" "nextActiveId (tap_frame s) = activePlayerId s2"
    by (simp_all add: s2_def handleTap_swap_fields)
  with i2 have i3: "session_inv playlist (snd (handleTap_preload playlist (tap_frame s) s2))"
    by (rule handleTap_preload_session_inv)
  from handleTap_next_snd [OF True] show ?thesis
    using i1 i2 i3 by (auto simp: s1_def s2_def)
qed

lemma fire_session_inv: "session_inv playlist s \<Longrightarrow> session_inv playlist (fire playlist s i)"
  by (cases i)
     (simp_all add: tick_fields timeout_fires_def onPress_def handleTap_session_inv,
      simp_all add: session_inv_def tick_fields clip_parity_def)

lemma run_session_inv:
  "session_inv playlist s \<Longrightarrow> session_inv playlist (foldl (fire playlist) s inps)"
  by (induction inps arbitrary: s) (simp_all add: fire_session_inv)

lemma session_inv_session: "session_inv playlist (session playlist ta tb h inps)"
proof -
  have "session_inv playlist (useEffect_mount playlist ta tb (initial h))"
    by (simp add: useEffect_mount_initial session_inv_def clip_parity_def)
  then show ?thesis by (simp add: session_def run_session_inv)
qed

lemma session_snoc: "session playlist ta tb h (inps @ [i]) = fire playlist (session playlist ta tb h inps) i"
  by (simp add: session_def)

text \<open>After the first press of a session still no player is playing.\<close>

lemma first_press_nothing_playing:
  "\<not> one_playing_opaque (session playlist ta tb h [TimeoutFires, Press])"
proof -
  have "session playlist ta tb h [TimeoutFires, Press]
      = onPress playlist (session playlist ta tb h [TimeoutFires])"
    using session_snoc [of playlist ta tb h "[TimeoutFires]" Press] by simp
  then show ?thesis
    by (auto simp: session_ready onPress_def tap_defs calls_defs onExit_def Let_def other_def
        one_playing_opaque_def phase_of_def video_play_def video_stop_def video_load_def
        video_unload_def split: option.splits)
qed

section \<open>The order of one advance\<close>

text \<open>
  C1. An advance with a next clip available and both players mounted: when the await
  of \<open>playAsync\<close> on the standby player is over, that call is the only event so far and
  the cursor and the active player id are still the old ones. Over the whole run the
  events are, in this order: play on the next player; then, only if the play resolved,
  \<open>setActivePlayerId\<close>, \<open>setCurrentIndex\<close> and stop on the previous player; then, only
  if the stop resolved, the load or unload of the previous player.
\<close>

theorem advance_order:
  assumes "currentIndex s + 1 < length playlist"
    and "playerARef s \<noteq> None" and "playerBRef s \<noteq> None"
  shows "new_events s (snd (handleTap_play playlist s)) = [PlayAsync (other (activePlayerId s))]
       \<and> currentIndex (snd (handleTap_play playlist s)) = currentIndex s
       \<and> activePlayerId (snd (handleTap_play playlist s)) = activePlayerId s
       \<and> new_events s (snd (handleTap playlist s)) =
           PlayAsync (other (activePlayerId s)) #
           (if resolves s
            then [SetActivePlayerId (other (activePlayerId s)),
                  SetCurrentIndex (currentIndex s + 1),
                  StopAsync (other (other (activePlayerId s)))] @
                 (if resolves (s\<lparr>host := tl (host s)\<rparr>)
                  then [if currentIndex s + 2 < length playlist
                        then LoadAsync (other (other (activePlayerId s)))
                               (uri (playlist ! (currentIndex s + 2)))
                        else UnloadAsync (other (other (activePlayerId s)))]
                  else [])
            else [])"
  using assms
  by (auto simp: tap_defs calls_defs new_events_def other_def resolves_def Let_def
      split: list.splits)

theorem advance_order_witness:
  "currentIndex (started three_clips []) + 1 < length three_clips
   \<and> playerARef (started three_clips []) \<noteq> None \<and> playerBRef (started three_clips []) \<noteq> None
   \<and> new_events (started three_clips []) (snd (handleTap three_clips (started three_clips []))) =
       [PlayAsync 1, SetActivePlayerId 1, SetCurrentIndex 1, StopAsync 0, LoadAsync 0 ''c.mov'']"
proof -
  have h1: "currentIndex (started three_clips []) + 1 < length three_clips"
    and h2: "playerARef (started three_clips []) \<noteq> None" and h3: "playerBRef (started three_clips []) \<noteq> None"
    by (simp_all add: demo_defs started_eq)
  show ?thesis
    using h1 h2 h3 advance_order [OF h1 h2 h3]
    by (simp add: demo_defs started_eq other_def resolves_def)
qed

section \<open>The last clip\<close>

text \<open>
  C5. With the cursor on the last clip (\<open>currentIndex = N - 1\<close>, \<open>N \<ge> 1\<close>), a run of
  \<open>handleTap\<close> calls \<open>onExit\<close> and returns: the only new event is the exit, no call is
  made on either player, and the cursor, the active player id and both players are as
  before. The host's \<open>onExit\<close> clears \<open>isPlaying\<close>, which is all that changes. A
  playlist of one clip is the case \<open>N = 1\<close>, cursor 0.
\<close>

theorem handleTap_last_clip:
  assumes "1 \<le> length playlist" and "currentIndex s = length playlist - 1"
  shows "handleTap playlist s = (Inr (), s\<lparr>isPlaying := False, trace := trace s @ [OnExit]\<rparr>)
       \<and> new_events s (snd (handleTap playlist s)) = [OnExit]
       \<and> currentIndex (snd (handleTap playlist s)) = currentIndex s
       \<and> activePlayerId (snd (handleTap playlist s)) = activePlayerId s
       \<and> playerARef (snd (handleTap playlist s)) = playerARef s
       \<and> playerBRef (snd (handleTap playlist s)) = playerBRef s
       \<and> \<not> isPlaying (snd (handleTap playlist s))"
  using assms by (simp add: handleTap_def handleTap_play_def onExit_def new_events_def)

theorem handleTap_last_clip_witness:
  "1 \<le> length one_clip \<and> currentIndex (started one_clip []) = length one_clip - 1
   \<and> handleTap one_clip (started one_clip []) = (Inr (), (started one_clip [])\<lparr>isPlaying := False,
          trace := [SetLoadingProgress 100, SetIsReady True, OnExit]\<rparr>)
   \<and> new_events (started one_clip []) (snd (handleTap one_clip (started one_clip []))) = [OnExit]"
proof -
  have h1: "1 \<le> length one_clip" and h2: "currentIndex (started one_clip []) = length one_clip - 1"
    by (simp_all add: demo_defs started_eq)
  show ?thesis
    using h1 h2 handleTap_last_clip [OF h1 h2]
    by (simp add: demo_defs started_eq new_events_def)
qed

section \<open>The preload after an advance\<close>

text \<open>
  C6. An advance with a next clip available and both players mounted that succeeds:
  the cursor goes up by one and the active id flips, and the player that was active is
  now the standby one. The last call of the run is on
  that player: \<open>loadAsync\<close> of the clip at \<open>futureIndex = nextIndex + 1\<close> when that is
  within the playlist, \<open>unloadAsync\<close> otherwise; \<open>playAsync\<close> is not called on it. So
  afterwards it holds the clip after the new current one, loaded and not playing, or
  it is empty, and it is empty exactly when the new current clip is the last.
\<close>

theorem preload_after_advance:
  assumes "currentIndex s + 1 < length playlist"
    and "playerARef s \<noteq> None" and "playerBRef s \<noteq> None"
    and "fst (handleTap playlist s) = Inr ()"
  shows "currentIndex (snd (handleTap playlist s)) = currentIndex s + 1
       \<and> activePlayerId (snd (handleTap playlist s)) = other (activePlayerId s)
       \<and> ref_of (other (activePlayerId (snd (handleTap playlist s)))) (snd (handleTap playlist s))
           = Some (standby_video playlist (currentIndex s + 1))
       \<and> last (trace (snd (handleTap playlist s)))
           = (if currentIndex s + 2 < length playlist
              then LoadAsync (other (other (activePlayerId s))) (uri (playlist ! (currentIndex s + 2)))
              else UnloadAsync (other (other (activePlayerId s))))
       \<and> PlayAsync (other (other (activePlayerId s))) \<notin> set (new_events s (snd (handleTap playlist s)))
       \<and> (source (standby_video playlist (currentIndex s + 1)) = None)
           = (currentIndex s + 2 = length playlist)"
proof -
  from assms(2,3) have "ref_of i s \<noteq> None" for i
    by (simp add: ref_of_def)
  then obtain vn vp
    where vn: "ref_of (other (activePlayerId s)) s = Some vn"
      and vp: "ref_of (other (other (activePlayerId s))) s = Some vp"
    by fastforce
  obtain r s' where run: "handleTap playlist s = (r, s')" by fastforce
  note f = handleTap_next_facts [OF assms(1) run]
  note g = handleTap_succeeded [OF assms(1) vn vp assms(4), unfolded run fst_conv snd_conv]
  from assms(4) have r: "r = Inr ()" by (simp add: run)
  with f(7) have c: "currentIndex s' = currentIndex s + 1"
    "activePlayerId s' = other (activePlayerId s)"
    by simp_all
  have ne: "other (other (activePlayerId s)) \<noteq> other (activePlayerId s)"
    by (simp add: other_def)
  have "PlayAsync (other (other (activePlayerId s))) \<notin> set (new_events s s')"
    using ne by (simp add: new_events_def g(3))
  moreover have "last (trace s')
           = (if currentIndex s + 2 < length playlist
              then LoadAsync (other (other (activePlayerId s))) (uri (playlist ! (currentIndex s + 2)))
              else UnloadAsync (other (other (activePlayerId s))))"
    by (simp add: g(3))
  moreover have "(source (standby_video playlist (currentIndex s + 1)) = None)
           = (currentIndex s + 2 = length playlist)"
    using assms(1) by (auto simp: standby_video_def)
  ultimately show ?thesis
    using c g(2) by (simp add: run)
qed

theorem preload_after_advance_witness:
  "currentIndex (started three_clips []) + 1 < length three_clips
   \<and> playerARef (started three_clips []) \<noteq> None \<and> playerBRef (started three_clips []) \<noteq> None
   \<and> fst (handleTap three_clips (started three_clips [])) = Inr ()
   \<and> ref_of 0 (snd (handleTap three_clips (started three_clips [])))
        = Some \<lparr>source = Some ''c.mov'', playing = False\<rparr>
   \<and> last (trace (snd (handleTap three_clips (started three_clips [])))) = LoadAsync 0 ''c.mov''"
proof -
  have h1: "currentIndex (started three_clips []) + 1 < length three_clips"
    and h2: "playerARef (started three_clips []) \<noteq> None" and h3: "playerBRef (started three_clips []) \<noteq> None"
    and h4: "fst (handleTap three_clips (started three_clips [])) = Inr ()"
    by code_simp+
  show ?thesis
    using h1 h2 h3 h4 preload_after_advance [OF h1 h2 h3 h4]
    by (auto simp: demo_defs started_eq other_def standby_video_def)
qed

section \<open>How many presses end the session\<close>

text \<open>
  C2, as the code has it. From a player past its loading view with the cursor on the
  first of \<open>N \<ge> 1\<close> clips, every call resolving and no exit signalled yet: after \<open>k\<close>
  presses, each made when the run of the one before is over, \<open>onExit\<close> has been called
  once if \<open>k \<ge> N\<close> and not at all if \<open>k < N\<close>, the player is still mounted exactly when
  \<open>k < N\<close>, and the cursor is \<open>min k (N - 1)\<close>. So exactly \<open>N\<close> presses are needed, \<open>N - 1\<close>
  that move the cursor and one on the last clip, and \<open>onExit\<close> is never called twice.
\<close>

theorem presses_to_exit:
  assumes "1 \<le> length playlist" and "currentIndex s = 0" and "isReady s" and "isPlaying s"
    and "all_resolve s" and "exit_count s = 0"
  shows "exit_count (presses playlist k s) = (if length playlist \<le> k then 1 else 0)
       \<and> isPlaying (presses playlist k s) = (k < length playlist)
       \<and> currentIndex (presses playlist k s) = min k (length playlist - 1)"
proof -
  have "if k < length playlist
        then currentIndex (presses playlist k s) = k \<and> isReady (presses playlist k s)
           \<and> isPlaying (presses playlist k s) \<and> all_resolve (presses playlist k s)
           \<and> exit_count (presses playlist k s) = 0
        else currentIndex (presses playlist k s) = length playlist - 1
           \<and> \<not> isPlaying (presses playlist k s) \<and> exit_count (presses playlist k s) = 1"
  proof (induction k)
    case 0
    then show ?case using assms by (cases playlist) simp_all
  next
    case (Suc k)
    define x where "x = presses playlist k s"
    show ?case
    proof (cases "k < length playlist")
      case False
      with Suc show ?thesis by (simp add: onPress_def)
    next
      case True
      with Suc have x: "currentIndex x = k" "isReady x" "isPlaying x" "all_resolve x"
        "exit_count x = 0"
        by (simp_all add: x_def)
      have step: "presses playlist (Suc k) s = onPress playlist x"
        by (simp add: x_def)
      show ?thesis
      proof (cases "Suc k < length playlist")
        case True
        then have nx: "currentIndex x + 1 < length playlist" using x by simp
        obtain r x' where run: "handleTap playlist x = (r, x')" by fastforce
        note f = handleTap_next_facts [OF nx run]
        from f(6) x(4) have "r = Inr ()" by simp
        moreover have "presses playlist (Suc k) s = x'"
          using x run by (simp add: step onPress_def del: presses.simps)
        ultimately show ?thesis using f x True by (simp del: presses.simps)
      next
        case False
        with True have last: "Suc k = length playlist" by simp
        then have "length playlist \<le> currentIndex x + 1" using x by simp
        then have "presses playlist (Suc k) s = onExit x"
          using x by (simp add: step onPress_def handleTap_exit del: presses.simps)
        then show ?thesis using x last by (simp add: onExit_fields del: presses.simps)
      qed
    qed
  qed
  then show ?thesis using assms(1) by (auto split: if_splits)
qed

theorem presses_to_exit_witness:
  "1 \<le> length three_clips \<and> currentIndex (started three_clips []) = 0 \<and> isReady (started three_clips [])
   \<and> isPlaying (started three_clips []) \<and> all_resolve (started three_clips []) \<and> exit_count (started three_clips []) = 0
   \<and> exit_count (presses three_clips 2 (started three_clips [])) = 0
   \<and> exit_count (presses three_clips 3 (started three_clips [])) = 1
   \<and> exit_count (presses three_clips 7 (started three_clips [])) = 1"
proof -
  have h: "1 \<le> length three_clips" "currentIndex (started three_clips []) = 0" "isReady (started three_clips [])"
    "isPlaying (started three_clips [])" "all_resolve (started three_clips [])" "exit_count (started three_clips []) = 0"
    by (simp_all add: demo_defs started_eq all_resolve_def exit_count_def host_calls_def)
  have n: "length three_clips = 3" by (simp add: three_clips_def)
  show ?thesis
    using h presses_to_exit [OF h, of 2] presses_to_exit [OF h, of 3] presses_to_exit [OF h, of 7]
    by (simp add: n)
qed

text \<open>
  The claim as stated, \<open>N - 1\<close> presses: with two clips, after one press the player is
  still mounted on the second clip and \<open>onExit\<close> has not been called; the second press
  calls it.
\<close>

theorem exit_after_fewer_presses_counterexample:
  "length two_clips - 1 = 1
   \<and> isPlaying (presses two_clips 1 (started two_clips []))
   \<and> exit_count (presses two_clips 1 (started two_clips [])) = 0
   \<and> exit_count (presses two_clips 2 (started two_clips [])) = 1"
  by (simp add: demo_defs started_eq onPress_def tap_defs calls_defs other_def resolves_def onExit_def
      exit_count_def host_calls_def video_play_def video_stop_def video_unload_def
      numeral_2_eq_2)

section \<open>A play call that fails\<close>

text \<open>
  C3, as the code has it. An advance with a next clip, the standby player mounted, and
  \<open>playAsync\<close> on it rejecting: \<open>handleTap\<close> does not call \<open>playAsync\<close> again. The run
  ends there with the rejection as its result; the one play call is its only event,
  and the cursor, the active player id and both players are as before, so the
  previously active player goes on as it was. The outcomes still to come, among them
  the one a second attempt would have met, are left unused.
\<close>

theorem play_failure_no_retry:
  assumes "currentIndex s + 1 < length playlist"
    and "ref_of (other (activePlayerId s)) s \<noteq> None" and "\<not> resolves s"
  shows "handleTap playlist s =
           (Inl PlayError, s\<lparr>host := tl (host s),
                               trace := trace s @ [PlayAsync (other (activePlayerId s))]\<rparr>)
       \<and> play_calls (new_events s (snd (handleTap playlist s))) = 1
       \<and> currentIndex (snd (handleTap playlist s)) = currentIndex s
       \<and> activePlayerId (snd (handleTap playlist s)) = activePlayerId s
       \<and> playerARef (snd (handleTap playlist s)) = playerARef s
       \<and> playerBRef (snd (handleTap playlist s)) = playerBRef s"
  using assms
  by (auto simp: handleTap_def handleTap_play_def playAsync_def call_def Let_def
      new_events_def play_calls_def)

theorem play_failure_no_retry_witness:
  "currentIndex (started three_clips [False, True]) + 1 < length three_clips
   \<and> ref_of (other (activePlayerId (started three_clips [False, True]))) (started three_clips [False, True]) \<noteq> None
   \<and> \<not> resolves (started three_clips [False, True])
   \<and> handleTap three_clips (started three_clips [False, True]) =
        (Inl PlayError, (started three_clips [False, True])\<lparr>host := [True],
           trace := [SetLoadingProgress 100, SetIsReady True, PlayAsync 1]\<rparr>)"
proof -
  have h: "currentIndex (started three_clips [False, True]) + 1 < length three_clips"
    "ref_of (other (activePlayerId (started three_clips [False, True]))) (started three_clips [False, True]) \<noteq> None"
    "\<not> resolves (started three_clips [False, True])"
    by (simp_all add: demo_defs started_eq ref_of_def other_def resolves_def)
  show ?thesis
    using h play_failure_no_retry [OF h]
    by (simp add: demo_defs started_eq other_def)
qed

text \<open>
  The claim as stated, one retry: with the first play rejecting and a second one that
  would resolve, the run makes one play call, not two, leaves the second outcome unused
  and does not move the cursor.
\<close>

theorem play_retried_once_counterexample:
  "play_calls (new_events (started three_clips [False, True])
      (snd (handleTap three_clips (started three_clips [False, True])))) \<noteq> 2
   \<and> host (snd (handleTap three_clips (started three_clips [False, True]))) = [True]
   \<and> currentIndex (snd (handleTap three_clips (started three_clips [False, True]))) = 0"
  by (simp add: demo_defs started_eq tap_defs calls_defs other_def resolves_def new_events_def
      play_calls_def)

section \<open>A press while an advance is in flight\<close>

text \<open>
  C4, as the code has it. \<open>handleTap\<close> has no guard against a press that arrives
  while an earlier run is suspended at one of its awaits: the press starts a further
  run on the state of that moment. Take a first run with a next clip whose play has
  resolved, with locals \<open>f\<close>.
  \<^item> A press before the first run has swapped finds the cursor and the active id
    unchanged. If its play resolves it has the same locals \<open>f\<close>; it calls \<open>playAsync\<close>
    on the same standby player once more (when that player is mounted). The swap writes
    the locals, it does not increment: after both runs have swapped, from whatever
    state, the cursor is one above the old one and the active id has flipped once.
  \<^item> A press after the first run has swapped computes its locals from the new cursor:
    with a further clip it is a second advance, to cursor plus two and back to the
    first player, unless its play is rejected; with none it calls \<open>onExit\<close>.
\<close>

theorem press_during_advance:
  assumes "currentIndex s + 1 < length playlist"
    and "fst (handleTap_play playlist s) = Inr (Some f)"
  shows "f = tap_frame s
       \<and> (fst (handleTap_play playlist (snd (handleTap_play playlist s))) = Inr (Some f)
          \<or> fst (handleTap_play playlist (snd (handleTap_play playlist s))) = Inl PlayError)
       \<and> new_events (snd (handleTap_play playlist s))
            (snd (handleTap_play playlist (snd (handleTap_play playlist s))))
          = (if ref_of (nextActiveId f) s = None then [] else [PlayAsync (nextActiveId f)])
       \<and> currentIndex (snd (handleTap_swap f (snd (handleTap_swap f x)))) = currentIndex s + 1
       \<and> activePlayerId (snd (handleTap_swap f (snd (handleTap_swap f x)))) = other (activePlayerId s)
       \<and> tap_frame (snd (handleTap_swap f (snd (handleTap_play playlist s))))
          = \<lparr>nextIndex = currentIndex s + 2, nextActiveId = other (other (activePlayerId s))\<rparr>
       \<and> (if currentIndex s + 2 < length playlist
          then fst (handleTap_play playlist (snd (handleTap_swap f (snd (handleTap_play playlist s)))))
                 = Inr (Some \<lparr>nextIndex = currentIndex s + 2,
                                nextActiveId = other (other (activePlayerId s))\<rparr>)
             \<or> fst (handleTap_play playlist (snd (handleTap_swap f (snd (handleTap_play playlist s)))))
                 = Inl PlayError
          else handleTap_play playlist (snd (handleTap_swap f (snd (handleTap_play playlist s))))
                 = (Inr None, onExit (snd (handleTap_swap f (snd (handleTap_play playlist s))))))"
proof -
  define s1 where "s1 = snd (handleTap_play playlist s)"
  define s2 where "s2 = snd (handleTap_swap f s1)"
  have f: "f = tap_frame s"
    using handleTap_play_result [OF assms(1)] assms(2) by auto
  have s1: "s1 = snd (playAsync (other (activePlayerId s)) s)"
    by (simp add: s1_def handleTap_play_snd [OF assms(1)])
  have c1: "currentIndex s1 = currentIndex s" "activePlayerId s1 = activePlayerId s"
    by (simp_all add: s1 playAsync_def call_fields)
  have t1: "tap_frame s1 = f" by (simp add: s1 tap_frame_playAsync f)
  have nx1: "currentIndex s1 + 1 < length playlist" using assms(1) c1 by simp
  have a: "fst (handleTap_play playlist s1) = Inr (Some f)
      \<or> fst (handleTap_play playlist s1) = Inl PlayError"
    using handleTap_play_result [OF nx1] by (simp add: t1)
  have "trace (snd (handleTap_play playlist s1))
      = trace s1 @ (if ref_of (other (activePlayerId s)) s1 = None then []
                    else [PlayAsync (other (activePlayerId s))])"
    by (simp add: handleTap_play_snd [OF nx1] c1 playAsync_def call_trace)
  moreover have "(ref_of (other (activePlayerId s)) s1 = None)
      = (ref_of (other (activePlayerId s)) s = None)"
    by (simp add: s1 playAsync_def ref_of_call_None)
  ultimately have b: "new_events s1 (snd (handleTap_play playlist s1))
          = (if ref_of (nextActiveId f) s = None then [] else [PlayAsync (nextActiveId f)])"
    by (simp add: new_events_def f tap_frame_def)
  have c: "currentIndex (snd (handleTap_swap f (snd (handleTap_swap f x)))) = currentIndex s + 1"
    "activePlayerId (snd (handleTap_swap f (snd (handleTap_swap f x)))) = other (activePlayerId s)"
    by (simp_all add: handleTap_swap_fields f tap_frame_def)
  have c2: "currentIndex s2 = currentIndex s + 1" "activePlayerId s2 = other (activePlayerId s)"
    by (simp_all add: s2_def handleTap_swap_fields f tap_frame_def)
  then have t2: "tap_frame s2
      = \<lparr>nextIndex = currentIndex s + 2, nextActiveId = other (other (activePlayerId s))\<rparr>"
    by (simp add: tap_frame_def)
  have d: "fst (handleTap_play playlist s2) = Inr (Some \<lparr>nextIndex = currentIndex s + 2,
                                nextActiveId = other (other (activePlayerId s))\<rparr>)
             \<or> fst (handleTap_play playlist s2) = Inl PlayError"
    if "currentIndex s + 2 < length playlist"
  proof -
    from that c2 have "currentIndex s2 + 1 < length playlist" by simp
    from handleTap_play_result [OF this] show ?thesis by (simp add: t2)
  qed
  have e: "handleTap_play playlist s2 = (Inr None, onExit s2)"
    if "\<not> currentIndex s + 2 < length playlist"
    using that c2 by (simp add: handleTap_play_def)
  show ?thesis
    using f a b c t2 d e unfolding s1_def s2_def by simp
qed

theorem press_during_advance_witness:
  "currentIndex (started three_clips []) + 1 < length three_clips
   \<and> fst (handleTap_play three_clips (started three_clips []))
        = Inr (Some \<lparr>nextIndex = 1, nextActiveId = 1\<rparr>)
   \<and> new_events (snd (handleTap_play three_clips (started three_clips [])))
        (snd (handleTap_play three_clips (snd (handleTap_play three_clips (started three_clips [])))))
        = [PlayAsync 1]
   \<and> tap_frame (snd (handleTap_swap \<lparr>nextIndex = 1, nextActiveId = 1\<rparr>
        (snd (handleTap_play three_clips (started three_clips [])))))
        = \<lparr>nextIndex = 2, nextActiveId = 0\<rparr>"
proof -
  have h: "currentIndex (started three_clips []) + 1 < length three_clips"
    "fst (handleTap_play three_clips (started three_clips []))
        = Inr (Some \<lparr>nextIndex = 1, nextActiveId = 1\<rparr>)"
    by code_simp+
  have v: "ref_of 1 (started three_clips []) \<noteq> None" "currentIndex (started three_clips []) = 0"
    "other (other (activePlayerId (started three_clips []))) = 0"
    by code_simp+
  note t = press_during_advance [OF h]
  note n = t [THEN conjunct2, THEN conjunct2, THEN conjunct1]
  note fr = t [THEN conjunct2, THEN conjunct2, THEN conjunct2, THEN conjunct2, THEN conjunct2,
      THEN conjunct1]
  show ?thesis
    using h v n fr by simp
qed

text \<open>
  The claim as stated, a press during an advance has no effect: in the session of
  three clips that has just become ready, the first run has called play on player B,
  swapped and called stop on player A, and is suspended before its preload, with the
  cursor at 1. A press now moves the cursor to 2 and makes five more calls and
  settings. A press that comes earlier, when the first run has only called play on
  player B, makes a whole run of its own as well.
\<close>

theorem press_while_advancing_counterexample:
  "currentIndex (snd (handleTap_swap (tap_frame (started three_clips []))
        (snd (handleTap_play three_clips (started three_clips []))))) = 1
   \<and> currentIndex (onPress three_clips (snd (handleTap_swap (tap_frame (started three_clips []))
        (snd (handleTap_play three_clips (started three_clips [])))))) = 2
   \<and> new_events (snd (handleTap_swap (tap_frame (started three_clips []))
        (snd (handleTap_play three_clips (started three_clips [])))))
       (onPress three_clips (snd (handleTap_swap (tap_frame (started three_clips []))
        (snd (handleTap_play three_clips (started three_clips []))))))
      = [PlayAsync 0, SetActivePlayerId 0, SetCurrentIndex 2, StopAsync 1, UnloadAsync 1]
   \<and> new_events (snd (handleTap_play three_clips (started three_clips [])))
       (onPress three_clips (snd (handleTap_play three_clips (started three_clips []))))
      = [PlayAsync 1, SetActivePlayerId 1, SetCurrentIndex 1, StopAsync 0, LoadAsync 0 ''c.mov'']"
  by code_simp

section \<open>The loading progress\<close>

text \<open>
  C9. In every state of a session, right after the mount effect and after any inputs
  that follow, the values passed to \<open>setLoadingProgress\<close> are the one value 100: when the
  effect runs both refs are null, so \<open>loadInitialVideos\<close> awaits nothing, the timer it
  has set is cleared before it can fire, and \<open>setLoadingProgress(100)\<close> is the only call.
  So the sequence is increasing and ends at 100.
\<close>

theorem progress_published:
  "published (trace (session playlist ta tb h inps)) = [100]
   \<and> sorted (published (trace (session playlist ta tb h inps)))
   \<and> last (published (trace (session playlist ta tb h inps))) = 100"
proof -
  have "published_100 (useEffect_mount playlist ta tb (initial h))"
    by (simp add: useEffect_mount_initial published_100_def)
  from run_published_100 [OF this] have "published (trace (session playlist ta tb h inps)) = [100]"
    by (simp add: session_def published_100_def)
  then show ?thesis by simp
qed

theorem progress_published_witness:
  "published (trace (session three_clips 2 3 [False, False] [TimerTick, TimeoutFires, Press, TimerTick]))
     = [100]"
  using progress_published [of three_clips 2 3 "[False, False]" "[TimerTick, TimeoutFires, Press, TimerTick]"]
  by simp

section \<open>The active player and the parity of the cursor\<close>

text \<open>
  C10. A freshly mounted player has cursor 0 and active player 0. In every state of a
  session, whatever the inputs and the outcomes of the media calls, the active player
  id is the cursor modulo 2, player A holds only clips at even positions of the
  playlist and player B only clips at odd positions. An advance that succeeds from a
  ready state of a session moves the cursor up by exactly one and flips the active id:
  it calls play on the player whose id is the parity of the new cursor, which then
  plays what it holds, then stop on the other one, and into that one it loads the clip
  two positions after the old cursor, a position of that player's parity, or unloads
  it when there is no such clip.
\<close>

theorem active_is_cursor_parity:
  "currentIndex (initial h) = 0 \<and> activePlayerId (initial h) = 0
   \<and> activePlayerId (session playlist ta tb h inps)
       = currentIndex (session playlist ta tb h inps) mod 2
   \<and> clip_parity playlist 0 (playerARef (session playlist ta tb h inps))
   \<and> clip_parity playlist 1 (playerBRef (session playlist ta tb h inps))
   \<and> (if isReady (session playlist ta tb h inps)
          \<and> currentIndex (session playlist ta tb h inps) + 1 < length playlist
          \<and> fst (handleTap playlist (session playlist ta tb h inps)) = Inr ()
       then currentIndex (snd (handleTap playlist (session playlist ta tb h inps)))
              = currentIndex (session playlist ta tb h inps) + 1
          \<and> activePlayerId (snd (handleTap playlist (session playlist ta tb h inps)))
              = 1 - activePlayerId (session playlist ta tb h inps)
          \<and> new_events (session playlist ta tb h inps)
                (snd (handleTap playlist (session playlist ta tb h inps)))
              = [PlayAsync ((currentIndex (session playlist ta tb h inps) + 1) mod 2),
                 SetActivePlayerId ((currentIndex (session playlist ta tb h inps) + 1) mod 2),
                 SetCurrentIndex (currentIndex (session playlist ta tb h inps) + 1),
                 StopAsync (currentIndex (session playlist ta tb h inps) mod 2),
                 if currentIndex (session playlist ta tb h inps) + 2 < length playlist
                 then LoadAsync (currentIndex (session playlist ta tb h inps) mod 2)
                        (uri (playlist ! (currentIndex (session playlist ta tb h inps) + 2)))
                 else UnloadAsync (currentIndex (session playlist ta tb h inps) mod 2)]
          \<and> ref_of ((currentIndex (session playlist ta tb h inps) + 1) mod 2)
                (snd (handleTap playlist (session playlist ta tb h inps)))
              = map_option video_play
                  (ref_of ((currentIndex (session playlist ta tb h inps) + 1) mod 2)
                     (session playlist ta tb h inps))
       else True)"
proof -
  define x where "x = session playlist ta tb h inps"
  have inv: "session_inv playlist x" by (simp add: x_def session_inv_session)
  then have a: "activePlayerId x = currentIndex x mod 2"
    and pa: "clip_parity playlist 0 (playerARef x)" and pb: "clip_parity playlist 1 (playerBRef x)"
    by (simp_all add: session_inv_def)
  have o1: "other (activePlayerId x) = (currentIndex x + 1) mod 2"
    and o3: "other ((currentIndex x + 1) mod 2) = currentIndex x mod 2"
    by (simp_all add: a other_def mod_Suc)
  have adv: "currentIndex (snd (handleTap playlist x)) = currentIndex x + 1
      \<and> activePlayerId (snd (handleTap playlist x)) = 1 - activePlayerId x
      \<and> new_events x (snd (handleTap playlist x))
          = [PlayAsync ((currentIndex x + 1) mod 2), SetActivePlayerId ((currentIndex x + 1) mod 2),
             SetCurrentIndex (currentIndex x + 1), StopAsync (currentIndex x mod 2),
             if currentIndex x + 2 < length playlist
             then LoadAsync (currentIndex x mod 2) (uri (playlist ! (currentIndex x + 2)))
             else UnloadAsync (currentIndex x mod 2)]
      \<and> ref_of ((currentIndex x + 1) mod 2) (snd (handleTap playlist x))
          = map_option video_play (ref_of ((currentIndex x + 1) mod 2) x)"
    if r: "isReady x" and nx: "currentIndex x + 1 < length playlist"
      and ok: "fst (handleTap playlist x) = Inr ()"
  proof -
    from inv r have "playerARef x \<noteq> None" "playerBRef x \<noteq> None"
      by (simp_all add: session_inv_def)
    then have "ref_of i x \<noteq> None" for i by (simp add: ref_of_def)
    then obtain vn vp where vn: "ref_of (other (activePlayerId x)) x = Some vn"
      and vp: "ref_of (other (other (activePlayerId x))) x = Some vp"
      by fastforce
    obtain r' x' where run: "handleTap playlist x = (r', x')" by fastforce
    note f = handleTap_next_facts [OF nx run]
    note g = handleTap_succeeded [OF nx vn vp ok, unfolded run fst_conv snd_conv]
    from ok have "r' = Inr ()" by (simp add: run)
    with f(7) have c: "currentIndex x' = currentIndex x + 1"
      "activePlayerId x' = other (activePlayerId x)"
      by simp_all
    have t: "1 - activePlayerId x = other (activePlayerId x)"
      by (simp add: a other_def)
    have vn': "ref_of ((currentIndex x + 1) mod 2) x = Some vn"
      using vn by (simp only: o1)
    have g1: "ref_of ((currentIndex x + 1) mod 2) x' = Some (video_play vn)"
      using g(1) by (simp only: o1)
    have g3: "trace x' = trace x @
          [PlayAsync ((currentIndex x + 1) mod 2), SetActivePlayerId ((currentIndex x + 1) mod 2),
           SetCurrentIndex (currentIndex x + 1), StopAsync (currentIndex x mod 2),
           if currentIndex x + 2 < length playlist
           then LoadAsync (currentIndex x mod 2) (uri (playlist ! (currentIndex x + 2)))
           else UnloadAsync (currentIndex x mod 2)]"
      using g(3) by (simp only: o1 o3)
    show ?thesis
      using c t o1 g1 g3 vn' by (simp add: run new_events_def)
  qed
  have i: "currentIndex (initial h) = 0" "activePlayerId (initial h) = 0"
    by (simp_all add: initial_def)
  show ?thesis
    using i a pa pb adv unfolding x_def by simp
qed

theorem active_is_cursor_parity_witness:
  "isReady (session three_clips 0 0 [] [TimeoutFires, Press])
   \<and> currentIndex (session three_clips 0 0 [] [TimeoutFires, Press]) + 1 < length three_clips
   \<and> fst (handleTap three_clips (session three_clips 0 0 [] [TimeoutFires, Press])) = Inr ()
   \<and> currentIndex (session three_clips 0 0 [] [TimeoutFires, Press]) = 1
   \<and> activePlayerId (session three_clips 0 0 [] [TimeoutFires, Press]) = 1
   \<and> new_events (session three_clips 0 0 [] [TimeoutFires, Press])
        (snd (handleTap three_clips (session three_clips 0 0 [] [TimeoutFires, Press])))
      = [PlayAsync 0, SetActivePlayerId 0, SetCurrentIndex 2, StopAsync 1, UnloadAsync 1]
   \<and> ref_of 0 (snd (handleTap three_clips (session three_clips 0 0 [] [TimeoutFires, Press])))
      = Some \<lparr>source = Some ''c.mov'', playing = True\<rparr>"
proof -
  define x where "x = session three_clips 0 0 [] [TimeoutFires, Press]"
  have h: "isReady x" "currentIndex x + 1 < length three_clips"
    "fst (handleTap three_clips x) = Inr ()"
    unfolding x_def by code_simp+
  have v: "currentIndex x = 1" "length three_clips = 3"
    "ref_of 0 x = Some \<lparr>source = Some ''c.mov'', playing = False\<rparr>"
    unfolding x_def by code_simp+
  note t = active_is_cursor_parity [of "[]" three_clips 0 0 "[TimeoutFires, Press]",
      folded x_def]
  from t have "activePlayerId x = currentIndex x mod 2" by blast
  with v have a: "activePlayerId x = 1" by simp
  from t h have "new_events x (snd (handleTap three_clips x))
          = [PlayAsync ((currentIndex x + 1) mod 2), SetActivePlayerId ((currentIndex x + 1) mod 2),
             SetCurrentIndex (currentIndex x + 1), StopAsync (currentIndex x mod 2),
             if currentIndex x + 2 < length three_clips
             then LoadAsync (currentIndex x mod 2) (uri (three_clips ! (currentIndex x + 2)))
             else UnloadAsync (currentIndex x mod 2)]
      \<and> ref_of ((currentIndex x + 1) mod 2) (snd (handleTap three_clips x))
          = map_option video_play (ref_of ((currentIndex x + 1) mod 2) x)"
    by simp
  with v have "new_events x (snd (handleTap three_clips x))
      = [PlayAsync 0, SetActivePlayerId 0, SetCurrentIndex 2, StopAsync 1, UnloadAsync 1]
     \<and> ref_of 0 (snd (handleTap three_clips x))
      = Some \<lparr>source = Some ''c.mov'', playing = True\<rparr>"
    by (simp add: video_play_def)
  with h v a show ?thesis unfolding x_def by simp
qed

section \<open>Which player is playing when the session is ready\<close>

text \<open>
  C7. In every session, at the moment the player has become ready both players are
  mounted with nothing loaded and the trace holds no load and no play call, so it is
  not the case that exactly one player is playing and opaque: none is playing, and the
  opaque player A shows nothing. After the first press this is still so, whatever the
  playlist and the outcomes of the media calls.
\<close>

theorem nothing_playing_when_ready:
  "isReady (session playlist ta tb h [TimeoutFires])
   \<and> playerARef (session playlist ta tb h [TimeoutFires]) = Some \<lparr>source = None, playing = False\<rparr>
   \<and> playerBRef (session playlist ta tb h [TimeoutFires]) = Some \<lparr>source = None, playing = False\<rparr>
   \<and> trace (session playlist ta tb h [TimeoutFires]) = [SetLoadingProgress 100, SetIsReady True]
   \<and> opacity (session playlist ta tb h [TimeoutFires]) 0 = 1
   \<and> \<not> one_playing_opaque (session playlist ta tb h [TimeoutFires])
   \<and> \<not> one_playing_opaque (session playlist ta tb h [TimeoutFires, Press])"
  using first_press_nothing_playing [of playlist ta tb h]
  by (simp add: session_ready one_playing_opaque_def phase_of_def opacity_def)

text \<open>
  Once the players hold clips, two of them play at a time within an advance, from the
  moment \<open>playAsync\<close> on the standby player has resolved until \<open>stopAsync\<close> on the
  previous one: here in the third press of a session of four clips.
\<close>

lemma both_playing_mid_advance:
  "isReady (session four_clips 0 0 [] [TimeoutFires, Press, Press])
   \<and> both_playing (snd (handleTap_play four_clips
        (session four_clips 0 0 [] [TimeoutFires, Press, Press])))"
  by code_simp

section \<open>The initial loads\<close>


end
